theory Spec2Isabelle
  imports Complex_Main "HOL-Library.AList" "HOL-Library.Sublist"
begin

section \<open>Restart supervisor\<close>

text \<open>
  Module constants of \<^verbatim>\<open>pulsar/utils/autoreload.py\<close>:
  \<^verbatim>\<open>EXIT_CODE = 5\<close> and \<^verbatim>\<open>PULSAR_RUN_MAIN = "PULSAR_RUN_MAIN"\<close>.
\<close>

definition EXIT_CODE :: int where
  "EXIT_CODE = 5"

definition PULSAR_RUN_MAIN :: string where
  "PULSAR_RUN_MAIN = ''PULSAR_RUN_MAIN''"

text \<open>
  What one \<^verbatim>\<open>subprocess.call\<close> gives back to the supervisor: the exit code of the
  child, or the \<^verbatim>\<open>KeyboardInterrupt\<close> raised while waiting for it.
\<close>

datatype exc = KeyboardInterrupt | KeyError string

type_synonym child_runs = "nat \<Rightarrow> exc + int"

text \<open>
  \<^verbatim>\<open>Reloader.restart_with_reloader\<close>: the \<^verbatim>\<open>while True\<close> loop. The environment is the
  function \<open>call\<close>: \<open>call k\<close> is the outcome of the \<open>k\<close>-th spawn (counted from 0).
  The state threaded through the loop is the number of spawns made so far. The result
  is the number of spawns together with the returned exit code (or the exception that
  left the loop); \<open>None\<close> is the loop running forever.
\<close>

partial_function (option) restart_loop :: "child_runs \<Rightarrow> nat \<Rightarrow> (nat \<times> (exc + int)) option" where
  "restart_loop call spawned =
     (case call spawned of
        Inl e \<Rightarrow> Some (Suc spawned, Inl e)
      | Inr exit_code \<Rightarrow>
          if exit_code \<noteq> EXIT_CODE then Some (Suc spawned, Inr exit_code)
          else restart_loop call (Suc spawned))"

definition restart_with_reloader :: "child_runs \<Rightarrow> (nat \<times> (exc + int)) option" where
  "restart_with_reloader call = restart_loop call 0"

section \<open>Construction of a reloader and the entry point\<close>

text \<open>
  \<^verbatim>\<open>Reloader.__init__\<close> computes \<^verbatim>\<open>self.interval = interval or 1\<close>. The argument is
  \<^verbatim>\<open>None\<close> (what \<^verbatim>\<open>start\<close> passes when it is given no interval) or a number; Python's
  \<^verbatim>\<open>or\<close> keeps the left operand when it is truthy, and a number is falsy exactly when it
  is zero. When the argument is left out of the constructor call its default is the
  number 1, that is \<open>Some 1\<close> here.
\<close>

definition Reloader_interval :: "real option \<Rightarrow> real" where
  "Reloader_interval interval =
     (case interval of None \<Rightarrow> 1 | Some x \<Rightarrow> if x = 0 then 1 else x)"

datatype reloader_class = StatReloader | WatchdogReloader

text \<open>
  The registry \<^verbatim>\<open>reloaders\<close>, a dictionary built when the module is loaded. The
  parameter says whether the import of the \<^verbatim>\<open>watchdog\<close> package succeeded
  (\<^verbatim>\<open>Observer\<close> is then not \<^verbatim>\<open>None\<close>).
\<close>

definition reloaders :: "bool \<Rightarrow> (string \<times> reloader_class) list" where
  "reloaders observer =
     (let reloaders0 = [(''stat'', StatReloader)] in
      if observer then
        (let reloaders1 = AList.update ''watchdog'' WatchdogReloader reloaders0 in
         case map_of reloaders1 ''watchdog'' of
           Some c \<Rightarrow> AList.update ''auto'' c reloaders1
         | None \<Rightarrow> reloaders1)
      else
        (case map_of reloaders0 ''stat'' of
           Some c \<Rightarrow> AList.update ''auto'' c reloaders0
         | None \<Rightarrow> reloaders0))"

text \<open>
  How a call of \<^verbatim>\<open>start\<close> ends, and what it did on the way: the reloaders it
  constructed (class and effective interval) and the number of children it spawned.
\<close>

datatype start_result =
    Raises exc
  | Runs_reloader
  | Exits int
  | Returns_None

record start_outcome =
  constructed :: "(reloader_class \<times> real) list"
  spawned :: nat
  result :: start_result

text \<open>
  \<^verbatim>\<open>start(reloader_type, interval)\<close>. The lookup \<^verbatim>\<open>reloaders[reloader_type]\<close> raises
  \<^verbatim>\<open>KeyError\<close> for a missing key; it stands before the \<^verbatim>\<open>try\<close> block. In the child
  (marker variable equal to \<^verbatim>\<open>"true"\<close>) the reloader's own \<^verbatim>\<open>run\<close> takes over
  (\<open>Runs_reloader\<close>); in the parent the restart loop runs and its exit code goes to
  \<^verbatim>\<open>sys.exit\<close>, a \<^verbatim>\<open>KeyboardInterrupt\<close> being swallowed. \<open>None\<close> is the restart loop
  never returning.
\<close>

definition start ::
  "bool \<Rightarrow> (string \<rightharpoonup> string) \<Rightarrow> child_runs \<Rightarrow> string \<Rightarrow> real option \<Rightarrow> start_outcome option" where
  "start observer environ call reloader_type interval =
     (case map_of (reloaders observer) reloader_type of
        None \<Rightarrow>
          Some \<lparr>constructed = [], spawned = 0, result = Raises (KeyError reloader_type)\<rparr>
      | Some cls \<Rightarrow>
          (let reloader = (cls, Reloader_interval interval) in
           if environ PULSAR_RUN_MAIN = Some ''true'' then
             Some \<lparr>constructed = [reloader], spawned = 0, result = Runs_reloader\<rparr>
           else
             (case restart_with_reloader call of
                None \<Rightarrow> None
              | Some (n, Inl KeyboardInterrupt) \<Rightarrow>
                  Some \<lparr>constructed = [reloader], spawned = n, result = Returns_None\<rparr>
              | Some (n, Inl e) \<Rightarrow>
                  Some \<lparr>constructed = [reloader], spawned = n, result = Raises e\<rparr>
              | Some (n, Inr exit_code) \<Rightarrow>
                  Some \<lparr>constructed = [reloader], spawned = n, result = Exits exit_code\<rparr>)))"

section \<open>Path-set builder\<close>

text \<open>
  \<^verbatim>\<open>os.path.dirname\<close> as \<^verbatim>\<open>posixpath\<close> defines it: the part of the path up to and
  with the last slash, its trailing slashes stripped unless it consists of slashes only.
\<close>

definition dirname :: "string \<Rightarrow> string" where
  "dirname p =
     (let i = length p - length (takeWhile (\<lambda>c. c \<noteq> CHR ''/'') (rev p));
          head = take i p
      in if head \<noteq> [] \<and> head \<noteq> replicate (length head) (CHR ''/'')
         then rev (dropWhile (\<lambda>c. c = CHR ''/'') (rev head))
         else head)"

text \<open>
  The \<^verbatim>\<open>while ... else\<close> loop of \<^verbatim>\<open>_iter_module_files\<close>: climb from the module's file
  name through its directories until an existing file is found (the \<^verbatim>\<open>else\<close> branch,
  \<open>Some\<close>) or \<^verbatim>\<open>dirname\<close> no longer changes the name (\<^verbatim>\<open>break\<close>, \<open>None\<close>). The file
  system is the predicate \<open>isfile\<close>.
\<close>

function find_file :: "(string \<Rightarrow> bool) \<Rightarrow> string \<Rightarrow> string option" where
  "find_file isfile filename =
     (if \<not> isfile filename then
        (let old = filename; filename' = dirname filename
         in if filename' = old then None else find_file isfile filename')
      else Some filename)"
  by pat_completeness auto
termination
proof (relation "measure (\<lambda>(isfile, filename). length filename)")
  show "wf (measure (\<lambda>(isfile :: string \<Rightarrow> bool, filename :: string). length filename))"
    by simp
next
  fix isfile :: "string \<Rightarrow> bool" and filename old filename' :: string
  assume "old = filename" and "filename' = dirname filename" and "filename' \<noteq> old"
  then have changed: "dirname filename \<noteq> filename" by simp
  define head where
    "head = take (length filename - length (takeWhile (\<lambda>c. c \<noteq> CHR ''/'') (rev filename))) filename"
  have "rev head = takeWhile (\<lambda>c. c = CHR ''/'') (rev head) @ dropWhile (\<lambda>c. c = CHR ''/'') (rev head)"
    by simp
  then have "head = rev (dropWhile (\<lambda>c. c = CHR ''/'') (rev head)) @ rev (takeWhile (\<lambda>c. c = CHR ''/'') (rev head))"
    by (metis rev_append rev_rev_ident)
  then have stripped: "prefix (rev (dropWhile (\<lambda>c. c = CHR ''/'') (rev head))) head"
    by (metis prefixI)
  have "prefix head filename"
    by (simp add: head_def take_is_prefix)
  with stripped have "prefix (dirname filename) filename"
    by (auto simp: dirname_def Let_def head_def [symmetric] intro: prefix_order.trans)
  with changed have "length (dirname filename) < length filename"
    by (metis le_neq_implies_less prefix_length_le prefix_order.eq_iff prefix_length_prefix)
  then show "((isfile, filename'), (isfile, filename)) \<in> measure (\<lambda>(isfile, filename). length filename)"
    using \<open>filename' = dirname filename\<close> by simp
qed

text \<open>
  A module of \<^verbatim>\<open>sys.modules\<close> is read only through its \<^verbatim>\<open>__file__\<close> attribute: the
  attribute is missing or \<^verbatim>\<open>None\<close> (\<open>None\<close>), or a string. An entry of \<^verbatim>\<open>sys.modules\<close>
  can itself be \<^verbatim>\<open>None\<close>.
\<close>

type_synonym py_module = "string option"

text \<open>
  \<^verbatim>\<open>_iter_module_files\<close>: the generator as the list of what it yields, in order. The
  slice \<^verbatim>\<open>filename[-4:]\<close> is the last four characters (the whole name when it is
  shorter) and \<^verbatim>\<open>filename[:-1]\<close> drops the last character.
\<close>

fun iter_module_files :: "(string \<Rightarrow> bool) \<Rightarrow> py_module option list \<Rightarrow> string list" where
  "iter_module_files isfile [] = []"
| "iter_module_files isfile (None # modules) = iter_module_files isfile modules"
| "iter_module_files isfile (Some module' # modules) =
     (case module' of
        None \<Rightarrow> iter_module_files isfile modules
      | Some filename \<Rightarrow>
          if filename \<noteq> [] then
            (case find_file isfile filename of
               None \<Rightarrow> iter_module_files isfile modules
             | Some filename \<Rightarrow>
                 (if drop (length filename - 4) filename \<in> {''.pyc'', ''.pyo''}
                  then butlast filename else filename)
                 # iter_module_files isfile modules)
          else iter_module_files isfile modules)"

text \<open>
  The specification's words for the path-set builder, to compare the generator with.
  A compiled-artifact suffix is normalized to the source suffix.
\<close>

definition spec_source_name :: "string \<Rightarrow> string" where
  "spec_source_name f = (if suffix ''.pyc'' f \<or> suffix ''.pyo'' f then butlast f else f)"

text \<open>
  An active source location \<open>m\<close> resolves to the path \<open>p\<close>: it names a location, and
  ascending its directory chain (the location, its directory, the directory of that,
  and so on) the first name that exists as a file is reached after \<open>k\<close> steps; \<open>p\<close>
  is that file with its suffix normalized. A location for which no name of the chain
  is an existing file resolves to nothing.
\<close>

definition spec_resolves_to :: "(string \<Rightarrow> bool) \<Rightarrow> py_module option \<Rightarrow> string \<Rightarrow> bool" where
  "spec_resolves_to isfile m p \<longleftrightarrow>
     (\<exists>filename k. m = Some (Some filename) \<and> filename \<noteq> []
        \<and> isfile ((dirname ^^ k) filename)
        \<and> (\<forall>j<k. \<not> isfile ((dirname ^^ j) filename))
        \<and> p = spec_source_name ((dirname ^^ k) filename))"

section \<open>Common-root reducer\<close>

text \<open>
  \<^verbatim>\<open>os.path.sep\<close>, a constant of the platform: the slash of POSIX systems, which is
  also the string \<^verbatim>\<open>_walk\<close> joins with.
\<close>

definition os_path_sep :: char where
  "os_path_sep = CHR ''/''"

text \<open>
  \<^verbatim>\<open>str.split(sep)\<close> for a separator of one character: the pieces between the
  separators, empty pieces kept; never an empty list.
\<close>

fun str_split :: "char \<Rightarrow> string \<Rightarrow> string list" where
  "str_split sep [] = [[]]"
| "str_split sep (c # cs) =
     (if c = sep then [] # str_split sep cs
      else (case str_split sep cs of
              chunk # chunks \<Rightarrow> (c # chunk) # chunks
            | [] \<Rightarrow> [[c]]))"

text \<open>\<^verbatim>\<open>sep.join(parts)\<close>.\<close>

fun str_join :: "string \<Rightarrow> string list \<Rightarrow> string" where
  "str_join sep [] = []"
| "str_join sep [x] = x"
| "str_join sep (x # y # ys) = x @ sep @ str_join sep (y # ys)"





subsection \<open>Notions used to state the reducer's properties\<close>



text \<open>The component sequence of a path.\<close>

definition chunks_of :: "string \<Rightarrow> string list" where
  "chunks_of p = str_split os_path_sep p"





section \<open>Reloaders\<close>

text \<open>
  What a reloader does to the world around it, in the order it does it: calls of
  \<^verbatim>\<open>os.stat\<close>, lines written by \<^verbatim>\<open>LOGGER.info\<close> in \<^verbatim>\<open>log_reload\<close> (the logged file
  name), \<^verbatim>\<open>sys.exit\<close>, \<^verbatim>\<open>loop.call_later\<close> (the delay), and the observer's
  \<^verbatim>\<open>schedule\<close> and \<^verbatim>\<open>unschedule\<close>. A watch, as the observer hands it out, is known by
  the path it was scheduled for.
\<close>

datatype watch = ObservedWatch string

datatype event =
    Os_stat string
  | Log_info string
  | Sys_exit int
  | Call_later real
  | Schedule string
  | Unschedule watch

text \<open>
  The class \<^verbatim>\<open>Reloader\<close>: its fields, with \<open>closed\<close> for what
  \<^verbatim>\<open>self._loop.is_closed()\<close> answers and \<open>trace\<close> for the events so far.
\<close>

record reloader =
  extra_files :: "string set"
  interval :: real
  closed :: bool
  trace :: "event list"

definition emit :: "event \<Rightarrow> 'a reloader_scheme \<Rightarrow> 'a reloader_scheme" where
  "emit e r = r\<lparr>trace := trace r @ [e]\<rparr>"

text \<open>\<^verbatim>\<open>Reloader.sleep\<close>: the next tick is scheduled unless the loop is closed.\<close>

definition sleep :: "'a reloader_scheme \<Rightarrow> 'a reloader_scheme" where
  "sleep r = (if \<not> closed r then emit (Call_later (interval r)) r else r)"

text \<open>
  \<^verbatim>\<open>Reloader.log_reload\<close>: unless the loop is closed, log the absolute file name and
  return \<^verbatim>\<open>True\<close>; otherwise return \<^verbatim>\<open>None\<close>, which is falsy. \<^verbatim>\<open>os.path.abspath\<close>
  depends on the working directory and is a parameter.
\<close>

definition log_reload ::
  "(string \<Rightarrow> string) \<Rightarrow> string \<Rightarrow> 'a reloader_scheme \<Rightarrow> bool \<times> 'a reloader_scheme" where
  "log_reload abspath filename r =
     (if \<not> closed r then (True, emit (Log_info (abspath filename)) r) else (False, r))"

text \<open>\<^verbatim>\<open>Reloader.exit\<close>: \<^verbatim>\<open>sys.exit(EXIT_CODE)\<close>; nothing of the caller runs after it.\<close>

definition exit :: "'a reloader_scheme \<Rightarrow> 'a reloader_scheme" where
  "exit r = emit (Sys_exit EXIT_CODE) r"

text \<open>\<^verbatim>\<open>Reloader.trigger_reload\<close>, as \<^verbatim>\<open>StatReloader\<close> inherits it.\<close>

definition trigger_reload ::
  "(string \<Rightarrow> string) \<Rightarrow> string \<Rightarrow> 'a reloader_scheme \<Rightarrow> 'a reloader_scheme" where
  "trigger_reload abspath filename r =
     (case log_reload abspath filename r of (logged, r') \<Rightarrow> if logged then exit r' else r')"

subsection \<open>The polling reloader\<close>

record 't stat_reloader = reloader +
  mtimes :: "string \<rightharpoonup> 't"

text \<open>
  The \<^verbatim>\<open>for\<close> loop of \<^verbatim>\<open>StatReloader.run\<close>. Its input is the sequence of file names the
  loop visits, \<^verbatim>\<open>chain(_iter_module_files(), self.extra_files)\<close>, each with what
  \<^verbatim>\<open>os.stat(filename).st_mtime\<close> gives at that visit (\<open>None\<close> for an \<^verbatim>\<open>OSError\<close>). The
  result is the reloader after the loop and, when the loop is left by
  \<^verbatim>\<open>return self.trigger_reload(filename)\<close>, that file name.
\<close>

fun run_loop ::
  "(string \<times> 't option) list \<Rightarrow> ('t::linorder) stat_reloader \<Rightarrow> 't stat_reloader \<times> string option" where
  "run_loop [] r = (r, None)"
| "run_loop ((filename, st) # files) r =
     (let r = emit (Os_stat filename) r in
      case st of
        None \<Rightarrow> run_loop files r
      | Some mtime \<Rightarrow>
          (case mtimes r filename of
             None \<Rightarrow> run_loop files (r\<lparr>mtimes := (mtimes r)(filename \<mapsto> mtime)\<rparr>)
           | Some old_time \<Rightarrow>
               if mtime > old_time then (r, Some filename)
               else run_loop files r))"

text \<open>\<^verbatim>\<open>StatReloader.run\<close>: one tick of the polling reloader.\<close>

definition StatReloader_run ::
  "(string \<Rightarrow> string) \<Rightarrow> (string \<times> 't option) list \<Rightarrow> ('t::linorder) stat_reloader \<Rightarrow> 't stat_reloader" where
  "StatReloader_run abspath files r =
     (case run_loop files r of
        (r', Some filename) \<Rightarrow> trigger_reload abspath filename r'
      | (r', None) \<Rightarrow> sleep r')"

subsection \<open>The event reloader\<close>

text \<open>
  \<^verbatim>\<open>WatchdogReloader\<close>. The dictionary \<^verbatim>\<open>watches\<close> is an association list in insertion
  order; a directory whose registration failed is bound to \<^verbatim>\<open>None\<close>.
\<close>

record watchdog_reloader = reloader +
  observable_paths :: "string set"
  watches :: "(string \<times> watch option) list"
  should_reload :: bool

text \<open>\<^verbatim>\<open>WatchdogReloader.trigger_reload\<close>: the flag is set, the tick loop exits later.\<close>

definition WatchdogReloader_trigger_reload ::
  "(string \<Rightarrow> string) \<Rightarrow> string \<Rightarrow> watchdog_reloader \<Rightarrow> watchdog_reloader" where
  "WatchdogReloader_trigger_reload abspath filename r =
     (case log_reload abspath filename r of
        (logged, r') \<Rightarrow> if logged then r'\<lparr>should_reload := True\<rparr> else r')"

text \<open>
  \<^verbatim>\<open>WatchdogReloader.check_modification\<close>. \<^verbatim>\<open>dirname.startswith(tuple(roots))\<close> holds
  when some root is a prefix of the string \<^verbatim>\<open>dirname\<close>.
\<close>

definition check_modification ::
  "(string \<Rightarrow> string) \<Rightarrow> string \<Rightarrow> watchdog_reloader \<Rightarrow> watchdog_reloader" where
  "check_modification abspath filename r =
     (let r = (if filename \<in> extra_files r
               then WatchdogReloader_trigger_reload abspath filename r else r);
          dirname' = dirname filename
      in if \<exists>root \<in> observable_paths r. prefix root dirname' then
           (if suffix ''.pyc'' filename \<or> suffix ''.pyo'' filename then
              WatchdogReloader_trigger_reload abspath (butlast filename) r
            else if suffix ''.py'' filename then
              WatchdogReloader_trigger_reload abspath filename r
            else r)
         else r)"

text \<open>
  The first loop of \<^verbatim>\<open>WatchdogReloader.run\<close>: register the desired paths that have no
  entry in \<^verbatim>\<open>watches\<close>. \<open>schedule path\<close> is what \<^verbatim>\<open>observer.schedule\<close> does for the path
  on this tick: a watch, or \<open>None\<close> for an \<^verbatim>\<open>OSError\<close>. The set \<^verbatim>\<open>to_delete\<close> is a list
  without a fixed order in the source; here it keeps the order of the dictionary.
\<close>

fun register_watches ::
  "(string \<Rightarrow> watch option) \<Rightarrow> string list \<Rightarrow> watchdog_reloader \<Rightarrow> string list
     \<Rightarrow> watchdog_reloader \<times> string list" where
  "register_watches schedule [] r to_delete = (r, to_delete)"
| "register_watches schedule (path # paths) r to_delete =
     (let r = (if map_of (watches r) path = None then
                 (let r = emit (Schedule path) r in
                  case schedule path of
                    Some w \<Rightarrow> r\<lparr>watches := AList.update path (Some w) (watches r)\<rparr>
                  | None \<Rightarrow> r\<lparr>watches := AList.update path None (watches r)\<rparr>)
               else r)
      in register_watches schedule paths r (removeAll path to_delete))"

text \<open>The second loop: drop the entries that are no longer desired.\<close>

fun unregister_watches :: "string list \<Rightarrow> watchdog_reloader \<Rightarrow> watchdog_reloader" where
  "unregister_watches [] r = r"
| "unregister_watches (path # to_delete) r =
     (let watch = (case map_of (watches r) path of None \<Rightarrow> None | Some w \<Rightarrow> w);
          r = r\<lparr>watches := AList.delete path (watches r)\<rparr>;
          r = (case watch of None \<Rightarrow> r | Some w \<Rightarrow> emit (Unschedule w) r)
      in unregister_watches to_delete r)"

text \<open>
  \<^verbatim>\<open>WatchdogReloader.run\<close>: one tick. \<open>paths\<close> is what
  \<^verbatim>\<open>_find_observable_paths(self.extra_files)\<close> returns on this tick, in the order the
  loop visits it.
\<close>

definition WatchdogReloader_run ::
  "(string \<Rightarrow> watch option) \<Rightarrow> string list \<Rightarrow> watchdog_reloader \<Rightarrow> watchdog_reloader" where
  "WatchdogReloader_run schedule paths r =
     (if should_reload r then exit r
      else if closed r then r
      else
        (let to_delete = map fst (watches r) in
         case register_watches schedule paths r to_delete of
           (r, to_delete) \<Rightarrow>
             (let r = unregister_watches to_delete r;
                  r = r\<lparr>observable_paths := set paths\<rparr>
              in sleep r)))"

text \<open>
  The life of an event reloader between two ticks and in the tick that follows: the
  loop may have been closed, the observer thread has delivered notifications (each
  handled by \<^verbatim>\<open>check_modification\<close>), then the timer calls \<^verbatim>\<open>run\<close>.
\<close>

record tick =
  tick_closed :: bool
  tick_notified :: "string list"
  tick_schedule :: "string \<Rightarrow> watch option"
  tick_paths :: "string list"

definition tick_step :: "(string \<Rightarrow> string) \<Rightarrow> tick \<Rightarrow> watchdog_reloader \<Rightarrow> watchdog_reloader" where
  "tick_step abspath t r =
     WatchdogReloader_run (tick_schedule t) (tick_paths t)
       (fold (check_modification abspath) (tick_notified t) (r\<lparr>closed := tick_closed t\<rparr>))"

definition run_ticks :: "(string \<Rightarrow> string) \<Rightarrow> tick list \<Rightarrow> watchdog_reloader \<Rightarrow> watchdog_reloader" where
  "run_ticks abspath ticks r = fold (tick_step abspath) ticks r"


section \<open>Properties of the restart supervisor\<close>

lemma restart_loop_skips_sentinels:
  assumes "\<forall>i<n. call (k + i) = Inr EXIT_CODE"
  shows "restart_loop call k = restart_loop call (k + n)"
  using assms
proof (induction n arbitrary: k)
  case 0
  show ?case by simp
next
  case (Suc n)
  from Suc.prems have first: "call k = Inr EXIT_CODE"
    by (metis add.right_neutral zero_less_Suc)
  from Suc.prems have rest: "\<forall>i<n. call (Suc k + i) = Inr EXIT_CODE"
    by (metis Suc_less_eq add_Suc_shift)
  have "restart_loop call k = restart_loop call (Suc k)"
    by (subst restart_loop.simps) (simp add: first)
  also have "\<dots> = restart_loop call (Suc k + n)"
    by (rule Suc.IH [OF rest])
  finally show ?case by simp
qed

text \<open>
  Claim C1. The supervisor respawns the child exactly while its exit code is the
  sentinel 5 and returns the first other exit code unchanged: when the first \<open>n\<close>
  children exit with 5 and the next one exits with \<open>c \<noteq> 5\<close>, the loop returns (it does
  not run forever), it has spawned exactly \<open>n + 1\<close> children, and its result is \<open>c\<close>.
\<close>

theorem restart_with_reloader_respawns_on_sentinel:
  assumes "\<forall>i<n. call i = Inr 5"
    and "call n = Inr c"
    and "c \<noteq> 5"
  shows "restart_with_reloader call = Some (n + 1, Inr c)"
proof -
  have "restart_loop call 0 = restart_loop call (0 + n)"
    by (rule restart_loop_skips_sentinels) (simp add: assms(1) EXIT_CODE_def)
  also have "\<dots> = Some (n + 1, Inr c)"
    by (subst restart_loop.simps) (simp add: assms(2,3) EXIT_CODE_def)
  finally show ?thesis
    by (simp add: restart_with_reloader_def)
qed

text \<open>
  The two scenarios of the specification: three exits with 5 and then 0 give four
  spawns and the result 0; a first exit with 1 gives one spawn and the result 1.
\<close>

theorem restart_with_reloader_respawns_on_sentinel_witness:
  "restart_with_reloader (\<lambda>i. if i < 3 then Inr 5 else Inr 0) = Some (4, Inr 0)
   \<and> restart_with_reloader (\<lambda>i. Inr 1) = Some (1, Inr 1)"
  using restart_with_reloader_respawns_on_sentinel
          [of 3 "\<lambda>i. if i < 3 then Inr 5 else Inr 0" 0]
        restart_with_reloader_respawns_on_sentinel [of 0 "\<lambda>i. Inr 1" 1]
  by simp

section \<open>Properties of the constructor and the entry point\<close>

text \<open>
  Claim C7, as stated, fails: a negative interval is truthy, so \<^verbatim>\<open>interval or 1\<close>
  keeps it. The interval \<open>-3\<close> is non-positive and stays \<open>-3\<close>.
\<close>

theorem Reloader_interval_negative_kept:
  "(-3::real) \<le> 0 \<and> Reloader_interval (Some (-3)) = -3 \<and> Reloader_interval (Some (-3)) \<noteq> 1"
  by (simp add: Reloader_interval_def)

text \<open>
  Claim C7, amended. For an interval that is absent (\<^verbatim>\<open>None\<close>, or left out so that the
  default 1 applies) or zero, the effective tick interval is 1; every other interval,
  positive or negative, is the effective interval unchanged.
\<close>

theorem Reloader_interval_zero_or_absent:
  "Reloader_interval None = 1
   \<and> Reloader_interval (Some 1) = 1
   \<and> Reloader_interval (Some 0) = 1
   \<and> (x \<noteq> 0 \<longrightarrow> Reloader_interval (Some x) = x)"
  by (simp add: Reloader_interval_def)

theorem Reloader_interval_zero_or_absent_witness:
  "Reloader_interval None = 1 \<and> Reloader_interval (Some 0) = 1
   \<and> Reloader_interval (Some (5 / 2)) = 5 / 2 \<and> Reloader_interval (Some (-3)) = -3"
  using Reloader_interval_zero_or_absent [of "5 / 2"]
        Reloader_interval_zero_or_absent [of "-3"]
  by simp

lemma reloaders_lookup:
  "map_of (reloaders observer) name =
     (if name = ''stat'' then Some StatReloader
      else if name = ''auto'' then Some (if observer then WatchdogReloader else StatReloader)
      else if name = ''watchdog'' \<and> observer then Some WatchdogReloader
      else None)"
  by (simp add: reloaders_def)

text \<open>
  Claim C10. A strategy name without an entry in the registry (any string other than
  \<^verbatim>\<open>"stat"\<close> and \<^verbatim>\<open>"auto"\<close>, and other than \<^verbatim>\<open>"watchdog"\<close> unless the notification
  facility is missing) makes \<^verbatim>\<open>start\<close> raise the lookup error \<^verbatim>\<open>KeyError\<close> with no
  reloader constructed and no child spawned: there is no fall-back to the polling
  reloader.
\<close>

theorem start_unknown_strategy_raises:
  assumes "name \<noteq> ''stat''"
    and "name \<noteq> ''auto''"
    and "name = ''watchdog'' \<longrightarrow> \<not> observer"
  shows "map_of (reloaders observer) name = None
    \<and> start observer environ call name secs =
        Some \<lparr>constructed = [], spawned = 0, result = Raises (KeyError name)\<rparr>"
  using assms by (simp add: start_def reloaders_lookup)

theorem start_unknown_strategy_raises_witness:
  "start False Map.empty (\<lambda>i. Inr 0) ''watchdog'' None =
     Some \<lparr>constructed = [], spawned = 0, result = Raises (KeyError ''watchdog'')\<rparr>
   \<and> start True Map.empty (\<lambda>i. Inr 0) ''inotify'' (Some 2) =
     Some \<lparr>constructed = [], spawned = 0, result = Raises (KeyError ''inotify'')\<rparr>"
  using start_unknown_strategy_raises [of "''watchdog''" False Map.empty "\<lambda>i. Inr 0" None]
        start_unknown_strategy_raises [of "''inotify''" True Map.empty "\<lambda>i. Inr 0" "Some 2"]
  by simp

section \<open>Properties of the path-set builder\<close>

lemma iter_module_files_append:
  "iter_module_files isfile (ms @ ms') =
     iter_module_files isfile ms @ iter_module_files isfile ms'"
  by (induction isfile ms rule: iter_module_files.induct)
     (simp_all split: option.splits)

lemma iter_module_files_single:
  "iter_module_files isfile [m] = [] \<or> (\<exists>q. iter_module_files isfile [m] = [q])"
  by (cases m) (auto split: option.splits)

text \<open>
  Claim C9, as stated, fails: nothing in \<^verbatim>\<open>_iter_module_files\<close> removes duplicates.
  Two modules whose \<^verbatim>\<open>__file__\<close> is the same existing file, or a source file and its
  compiled file, give the same path twice.
\<close>

theorem iter_module_files_duplicates:
  "iter_module_files (\<lambda>f. True) [Some (Some ''/a/m.py''), Some (Some ''/a/m.pyc'')]
     = [''/a/m.py'', ''/a/m.py'']
   \<and> \<not> distinct (iter_module_files (\<lambda>f. True)
         [Some (Some ''/a/m.py''), Some (Some ''/a/m.pyc'')])"
  by (simp add: find_file.simps)

lemma last_four_suffix:
  "length s = 4 \<Longrightarrow> drop (length f - 4) f = s \<longleftrightarrow> suffix s f"
proof
  assume "length s = 4" and "drop (length f - 4) f = s"
  then have "f = take (length f - 4) f @ s" by (metis append_take_drop_id)
  then show "suffix s f" by (metis suffixI)
next
  assume "length s = 4" and "suffix s f"
  then obtain x where "f = x @ s" by (auto simp: suffix_def)
  with \<open>length s = 4\<close> show "drop (length f - 4) f = s" by simp
qed

lemma find_file_first_existing:
  "find_file isfile filename = Some g \<longleftrightarrow>
     (\<exists>k. g = (dirname ^^ k) filename \<and> isfile g \<and> (\<forall>j<k. \<not> isfile ((dirname ^^ j) filename)))"
proof (induction isfile filename rule: find_file.induct)
  case (1 isfile filename)
  show ?case
  proof (cases "isfile filename")
    case True
    have "(\<exists>k. g = (dirname ^^ k) filename \<and> isfile g \<and> (\<forall>j<k. \<not> isfile ((dirname ^^ j) filename)))
        \<longleftrightarrow> g = filename"
    proof
      assume "\<exists>k. g = (dirname ^^ k) filename \<and> isfile g \<and> (\<forall>j<k. \<not> isfile ((dirname ^^ j) filename))"
      then obtain k where k: "g = (dirname ^^ k) filename" "\<forall>j<k. \<not> isfile ((dirname ^^ j) filename)"
        by blast
      have "k = 0"
      proof (rule ccontr)
        assume "k \<noteq> 0"
        then have "0 < k" by simp
        with k(2) have "\<not> isfile ((dirname ^^ 0) filename)" by blast
        with True show False by simp
      qed
      with k(1) show "g = filename" by simp
    next
      assume "g = filename"
      with True have "g = (dirname ^^ 0) filename \<and> isfile g \<and> (\<forall>j<0. \<not> isfile ((dirname ^^ j) filename))"
        by simp
      then show "\<exists>k. g = (dirname ^^ k) filename \<and> isfile g \<and> (\<forall>j<k. \<not> isfile ((dirname ^^ j) filename))"
        by blast
    qed
    moreover from True have "find_file isfile filename = Some g \<longleftrightarrow> g = filename"
      by (subst find_file.simps) auto
    ultimately show ?thesis by simp
  next
    case notfile: False
    show ?thesis
    proof (cases "dirname filename = filename")
      case True
      have fixpoint: "(dirname ^^ k) filename = filename" for k
        by (induction k) (simp_all add: True)
      from notfile True have "find_file isfile filename = None"
        by (subst find_file.simps) (simp add: Let_def)
      moreover have "\<not> (\<exists>k. g = (dirname ^^ k) filename \<and> isfile g
          \<and> (\<forall>j<k. \<not> isfile ((dirname ^^ j) filename)))"
        using notfile by (auto simp: fixpoint)
      ultimately show ?thesis by simp
    next
      case False
      from notfile False have step: "find_file isfile filename = find_file isfile (dirname filename)"
        by (subst find_file.simps) (simp add: Let_def)
      have IH: "find_file isfile (dirname filename) = Some g \<longleftrightarrow>
          (\<exists>k. g = (dirname ^^ k) (dirname filename) \<and> isfile g
             \<and> (\<forall>j<k. \<not> isfile ((dirname ^^ j) (dirname filename))))"
        using "1.IH" [OF notfile refl refl] False by simp
      have "(\<exists>k. g = (dirname ^^ k) (dirname filename) \<and> isfile g
             \<and> (\<forall>j<k. \<not> isfile ((dirname ^^ j) (dirname filename))))
         \<longleftrightarrow> (\<exists>k. g = (dirname ^^ k) filename \<and> isfile g
             \<and> (\<forall>j<k. \<not> isfile ((dirname ^^ j) filename)))"
      proof
        assume "\<exists>k. g = (dirname ^^ k) (dirname filename) \<and> isfile g
             \<and> (\<forall>j<k. \<not> isfile ((dirname ^^ j) (dirname filename)))"
        then obtain k where k: "g = (dirname ^^ k) (dirname filename)" "isfile g"
            "\<forall>j<k. \<not> isfile ((dirname ^^ j) (dirname filename))"
          by blast
        have "\<not> isfile ((dirname ^^ j) filename)" if "j < Suc k" for j
        proof (cases j)
          case 0
          with notfile show ?thesis by simp
        next
          case (Suc j')
          with that k(3) show ?thesis by (simp add: funpow_swap1)
        qed
        with k(1,2) have "g = (dirname ^^ Suc k) filename \<and> isfile g
             \<and> (\<forall>j<Suc k. \<not> isfile ((dirname ^^ j) filename))"
          by (simp add: funpow_swap1)
        then show "\<exists>k. g = (dirname ^^ k) filename \<and> isfile g
             \<and> (\<forall>j<k. \<not> isfile ((dirname ^^ j) filename))"
          by blast
      next
        assume "\<exists>k. g = (dirname ^^ k) filename \<and> isfile g
             \<and> (\<forall>j<k. \<not> isfile ((dirname ^^ j) filename))"
        then obtain k where k: "g = (dirname ^^ k) filename" "isfile g"
            "\<forall>j<k. \<not> isfile ((dirname ^^ j) filename)"
          by blast
        from k(1,2) notfile have "k \<noteq> 0" by (cases k) auto
        then obtain k' where k': "k = Suc k'" by (cases k) auto
        have "\<not> isfile ((dirname ^^ j) (dirname filename))" if "j < k'" for j
        proof -
          from that k' have "Suc j < k" by simp
          with k(3) have "\<not> isfile ((dirname ^^ Suc j) filename)" by blast
          then show ?thesis by (simp add: funpow_swap1)
        qed
        with k(1,2) k' have "g = (dirname ^^ k') (dirname filename) \<and> isfile g
             \<and> (\<forall>j<k'. \<not> isfile ((dirname ^^ j) (dirname filename)))"
          by (simp add: funpow_swap1)
        then show "\<exists>k. g = (dirname ^^ k) (dirname filename) \<and> isfile g
             \<and> (\<forall>j<k. \<not> isfile ((dirname ^^ j) (dirname filename)))"
          by blast
      qed
      with IH step show ?thesis by simp
    qed
  qed
qed

lemma iter_module_files_single_resolves:
  "iter_module_files isfile [m] = [p] \<longleftrightarrow> spec_resolves_to isfile m p"
proof (cases m)
  case None
  then show ?thesis by (simp add: spec_resolves_to_def)
next
  case (Some module')
  show ?thesis
  proof (cases module')
    case None
    with Some show ?thesis by (simp add: spec_resolves_to_def)
  next
    case name: (Some filename)
    show ?thesis
    proof (cases "filename = []")
      case True
      with Some name show ?thesis by (simp add: spec_resolves_to_def)
    next
      case False
      have "iter_module_files isfile [m] = [p] \<longleftrightarrow>
              (\<exists>g. find_file isfile filename = Some g \<and> p = spec_source_name g)"
        using False
        by (auto simp: Some name spec_source_name_def
              last_four_suffix [of "''.pyc''", symmetric] last_four_suffix [of "''.pyo''", symmetric]
              simp del: find_file.simps split: option.splits)
      also have "\<dots> \<longleftrightarrow> (\<exists>k. isfile ((dirname ^^ k) filename)
            \<and> (\<forall>j<k. \<not> isfile ((dirname ^^ j) filename))
            \<and> p = spec_source_name ((dirname ^^ k) filename))"
        unfolding find_file_first_existing by blast
      also have "\<dots> \<longleftrightarrow> spec_resolves_to isfile m p"
        using False by (simp add: spec_resolves_to_def Some name)
      finally show ?thesis .
    qed
  qed
qed

text \<open>
  Claim C9, amended. The sequence holds one path for every active source location that
  resolves to an existing file, and a path occurs in it as many times as there are
  locations resolving to it: the locations are not deduplicated. Resolving is what
  the specification describes: the first existing file on the location's directory
  chain, with a compiled-artifact suffix normalized; a location that resolves to
  nothing contributes nothing.
\<close>

theorem iter_module_files_yields_each_resolution:
  "count_list (iter_module_files isfile modules) p =
     length (filter (\<lambda>m. spec_resolves_to isfile m p) modules)"
proof (induction modules)
  case Nil
  show ?case by simp
next
  case (Cons m modules)
  have "iter_module_files isfile (m # modules) =
          iter_module_files isfile [m] @ iter_module_files isfile modules"
    using iter_module_files_append [of isfile "[m]" modules] by simp
  moreover have "count_list (iter_module_files isfile [m]) p =
      (if spec_resolves_to isfile m p then 1 else 0)"
    using iter_module_files_single [of isfile m]
    by (auto simp: iter_module_files_single_resolves [symmetric])
  ultimately show ?case using Cons by simp
qed

lemma iter_module_files_example:
  "iter_module_files (\<lambda>f. f = ''/a/m.py'' \<or> f = ''/a/n.pyc'')
     [Some (Some ''/a/m.py''), None, Some (Some ''/a/m.py/gone''), Some None,
      Some (Some ''/a/n.pyc''), Some (Some ''/b/x.py'')]
   = [''/a/m.py'', ''/a/m.py'', ''/a/n.py'']"
  by code_simp

theorem iter_module_files_yields_each_resolution_witness:
  "length (filter (\<lambda>m. spec_resolves_to (\<lambda>f. f = ''/a/m.py'' \<or> f = ''/a/n.pyc'') m ''/a/m.py'')
     [Some (Some ''/a/m.py''), None, Some (Some ''/a/m.py/gone''), Some None,
      Some (Some ''/a/n.pyc''), Some (Some ''/b/x.py'')]) = 2
   \<and> length (filter (\<lambda>m. spec_resolves_to (\<lambda>f. f = ''/a/m.py'' \<or> f = ''/a/n.pyc'') m ''/b/x.py'')
     [Some (Some ''/a/m.py''), None, Some (Some ''/a/m.py/gone''), Some None,
      Some (Some ''/a/n.pyc''), Some (Some ''/b/x.py'')]) = 0"
  using iter_module_files_yields_each_resolution
          [of "\<lambda>f. f = ''/a/m.py'' \<or> f = ''/a/n.pyc''"
              "[Some (Some ''/a/m.py''), None, Some (Some ''/a/m.py/gone''), Some None,
                Some (Some ''/a/n.pyc''), Some (Some ''/b/x.py'')]" "''/a/m.py''", symmetric]
        iter_module_files_yields_each_resolution
          [of "\<lambda>f. f = ''/a/m.py'' \<or> f = ''/a/n.pyc''"
              "[Some (Some ''/a/m.py''), None, Some (Some ''/a/m.py/gone''), Some None,
                Some (Some ''/a/n.pyc''), Some (Some ''/b/x.py'')]" "''/b/x.py''", symmetric]
  unfolding iter_module_files_example by simp

section \<open>Properties of the polling reloader\<close>

lemma emit_fields [simp]:
  "trace (emit e r) = trace r @ [e]"
  "closed (emit e r) = closed r"
  "interval (emit e r) = interval r"
  "extra_files (emit e r) = extra_files r"
  by (simp_all add: emit_def)

lemma mtimes_emit [simp]: "mtimes (emit e r) = mtimes r"
  by (simp add: emit_def)

lemma run_loop_append:
  "run_loop (xs @ ys) r =
     (case run_loop xs r of (r', Some f) \<Rightarrow> (r', Some f) | (r', None) \<Rightarrow> run_loop ys r')"
  by (induction xs r rule: run_loop.induct)
     (simp_all add: Let_def split: option.splits prod.splits)




lemma run_loop_complete:
  "run_loop files r = (r0, None) \<Longrightarrow>
     trace r0 = trace r @ map Os_stat (map fst files) \<and> closed r0 = closed r"
  by (induction files r rule: run_loop.induct)
     (auto simp: Let_def split: option.splits if_splits)



text \<open>
  Claim C5. A tick triggers at most one reload: the loop stops at the first path whose
  modification time exceeds its baseline. Whatever paths \<open>post\<close> follow it, none of them
  is examined (the last \<^verbatim>\<open>os.stat\<close> of the tick is the one of \<open>f\<close>, followed by one log
  line and one exit unless the loop is closed) and no baseline changes after it (the
  table is the one the loop had when it reached \<open>f\<close>).
\<close>

theorem stat_reloader_stops_at_first_change:
  fixes r :: "('t::linorder) stat_reloader"
  assumes "run_loop pre r = (r0, None)"
    and "mtimes r0 f = Some old"
    and "old < t"
  shows "run_loop (pre @ (f, Some t) # post) r = (emit (Os_stat f) r0, Some f)
     \<and> StatReloader_run abspath (pre @ (f, Some t) # post) r =
         trigger_reload abspath f (emit (Os_stat f) r0)
     \<and> trace (StatReloader_run abspath (pre @ (f, Some t) # post) r) =
         trace r @ map Os_stat (map fst pre) @ [Os_stat f]
           @ (if closed r then [] else [Log_info (abspath f), Sys_exit 5])
     \<and> mtimes (StatReloader_run abspath (pre @ (f, Some t) # post) r) = mtimes r0"
proof -
  have loop: "run_loop (pre @ (f, Some t) # post) r = (emit (Os_stat f) r0, Some f)"
    using assms by (simp add: run_loop_append)
  then have run: "StatReloader_run abspath (pre @ (f, Some t) # post) r =
         trigger_reload abspath f (emit (Os_stat f) r0)"
    by (simp add: StatReloader_run_def)
  from run_loop_complete [OF assms(1)]
  have r0: "trace r0 = trace r @ map Os_stat (map fst pre)" "closed r0 = closed r"
    by simp_all
  have "trace (trigger_reload abspath f (emit (Os_stat f) r0)) =
         trace r @ map Os_stat (map fst pre) @ [Os_stat f]
           @ (if closed r then [] else [Log_info (abspath f), Sys_exit 5])"
    by (simp add: trigger_reload_def log_reload_def exit_def r0 EXIT_CODE_def)
  moreover have "mtimes (trigger_reload abspath f (emit (Os_stat f) r0)) = mtimes r0"
    by (simp add: trigger_reload_def log_reload_def exit_def)
  ultimately show ?thesis using loop run by simp
qed

theorem stat_reloader_stops_at_first_change_witness:
  "StatReloader_run (\<lambda>p. p)
       ([(''/a/x.py'', Some (7::nat))] @ (''/a/y.py'', Some 2) # [(''/a/z.py'', Some 9)])
       \<lparr>extra_files = {}, interval = 1, closed = False, trace = [],
        mtimes = [''/a/y.py'' \<mapsto> 1, ''/a/z.py'' \<mapsto> 1]\<rparr> =
     \<lparr>extra_files = {}, interval = 1, closed = False,
      trace = [Os_stat ''/a/x.py'', Os_stat ''/a/y.py'', Log_info ''/a/y.py'', Sys_exit 5],
      mtimes = [''/a/y.py'' \<mapsto> 1, ''/a/z.py'' \<mapsto> 1, ''/a/x.py'' \<mapsto> 7]\<rparr>"
  using stat_reloader_stops_at_first_change
          [where pre = "[(''/a/x.py'', Some (7::nat))]"
             and r = "\<lparr>extra_files = {}, interval = 1, closed = False, trace = [],
                mtimes = [''/a/y.py'' \<mapsto> 1, ''/a/z.py'' \<mapsto> 1]\<rparr>"
             and ?r0.0 = "\<lparr>extra_files = {}, interval = 1, closed = False, trace = [Os_stat ''/a/x.py''],
                mtimes = [''/a/y.py'' \<mapsto> 1, ''/a/z.py'' \<mapsto> 1, ''/a/x.py'' \<mapsto> 7]\<rparr>"
             and f = "''/a/y.py''" and old = 1 and t = 2 and abspath = "\<lambda>p. p"
             and post = "[(''/a/z.py'', Some 9)]"]
  by (simp add: emit_def trigger_reload_def log_reload_def exit_def EXIT_CODE_def)

section \<open>Properties of the event reloader\<close>

lemma emit_watchdog_fields [simp]:
  "watches (emit e r) = watches r"
  "should_reload (emit e r) = should_reload r"
  "observable_paths (emit e r) = observable_paths r"
  by (simp_all add: emit_def)

lemma WatchdogReloader_trigger_reload_fields:
  "watches (WatchdogReloader_trigger_reload abspath f r) = watches r"
  "observable_paths (WatchdogReloader_trigger_reload abspath f r) = observable_paths r"
  "extra_files (WatchdogReloader_trigger_reload abspath f r) = extra_files r"
  "closed (WatchdogReloader_trigger_reload abspath f r) = closed r"
  "count_list (trace (WatchdogReloader_trigger_reload abspath f r)) (Schedule p) =
     count_list (trace r) (Schedule p)"
  by (simp_all add: WatchdogReloader_trigger_reload_def log_reload_def)

lemma check_modification_fields:
  "watches (check_modification abspath f r) = watches r"
  "count_list (trace (check_modification abspath f r)) (Schedule p) =
     count_list (trace r) (Schedule p)"
  by (simp_all add: check_modification_def Let_def WatchdogReloader_trigger_reload_fields)

lemma notified_fields:
  "watches (fold (check_modification abspath) fs r) = watches r
   \<and> count_list (trace (fold (check_modification abspath) fs r)) (Schedule p) =
     count_list (trace r) (Schedule p)"
  by (induction fs arbitrary: r) (simp_all add: check_modification_fields)

lemma register_watches_result:
  "register_watches schedule paths r to_delete = (r', to_delete') \<Longrightarrow>
     map_of (watches r') k =
       (if k \<in> set paths \<and> map_of (watches r) k = None then Some (schedule k)
        else map_of (watches r) k)
     \<and> set to_delete' = set to_delete - set paths
     \<and> count_list (trace r') (Schedule k) =
         count_list (trace r) (Schedule k)
           + (if k \<in> set paths \<and> map_of (watches r) k = None then 1 else 0)
     \<and> closed r' = closed r \<and> interval r' = interval r"
proof (induction paths arbitrary: r to_delete)
  case Nil
  then show ?case by simp
next
  case (Cons path paths)
  define r1 where
    "r1 = (if map_of (watches r) path = None
           then (emit (Schedule path) r)\<lparr>watches := AList.update path (schedule path) (watches r)\<rparr>
           else r)"
  have step: "register_watches schedule (path # paths) r to_delete =
                register_watches schedule paths r1 (removeAll path to_delete)"
    by (simp add: r1_def Let_def split: option.splits)
  with Cons.prems have "register_watches schedule paths r1 (removeAll path to_delete) = (r', to_delete')"
    by simp
  note IH = Cons.IH [OF this]
  have w1: "map_of (watches r1) k =
              (if k = path \<and> map_of (watches r) k = None then Some (schedule k) else map_of (watches r) k)"
    by (auto simp: r1_def update_conv')
  have t1: "count_list (trace r1) (Schedule k) =
              count_list (trace r) (Schedule k) + (if k = path \<and> map_of (watches r) k = None then 1 else 0)"
    by (simp add: r1_def)
  have f1: "closed r1 = closed r" "interval r1 = interval r"
    by (simp_all add: r1_def)
  from IH w1 t1 f1 show ?case
    by (auto split: if_splits)
qed

lemma unregister_watches_result:
  "map_of (watches (unregister_watches to_delete r)) k =
     (if k \<in> set to_delete then None else map_of (watches r) k)
   \<and> count_list (trace (unregister_watches to_delete r)) (Schedule k) =
       count_list (trace r) (Schedule k)
   \<and> closed (unregister_watches to_delete r) = closed r
   \<and> interval (unregister_watches to_delete r) = interval r"
proof (induction to_delete arbitrary: r)
  case Nil
  show ?case by simp
next
  case (Cons path to_delete)
  define r1 where "r1 = r\<lparr>watches := AList.delete path (watches r)\<rparr>"
  define r2 where "r2 = (case (case map_of (watches r) path of None \<Rightarrow> None | Some w \<Rightarrow> w) of
                           None \<Rightarrow> r1 | Some w \<Rightarrow> emit (Unschedule w) r1)"
  have step: "unregister_watches (path # to_delete) r = unregister_watches to_delete r2"
    unfolding r1_def r2_def by (simp add: Let_def)
  have "map_of (watches r2) k = (if k = path then None else map_of (watches r) k)"
    "count_list (trace r2) (Schedule k) = count_list (trace r) (Schedule k)"
    "closed r2 = closed r" "interval r2 = interval r"
    by (simp_all add: r2_def r1_def delete_conv' split: option.splits)
  with Cons.IH [of r2] show ?case
    unfolding step by auto
qed

lemma WatchdogReloader_run_result:
  assumes "\<not> should_reload r" and "\<not> closed r"
  shows "map_of (watches (WatchdogReloader_run schedule paths r)) k =
           (if k \<in> set paths
            then (case map_of (watches r) k of None \<Rightarrow> Some (schedule k) | Some w \<Rightarrow> Some w)
            else None)
     \<and> count_list (trace (WatchdogReloader_run schedule paths r)) (Schedule k) =
         count_list (trace r) (Schedule k)
           + (if k \<in> set paths \<and> map_of (watches r) k = None then 1 else 0)"
proof -
  obtain r1 to_delete1 where reg:
    "register_watches schedule paths r (map fst (watches r)) = (r1, to_delete1)"
    by (cases "register_watches schedule paths r (map fst (watches r))")
  note R = register_watches_result [OF reg, of k]
  note U = unregister_watches_result [of to_delete1 r1 k]
  have run: "WatchdogReloader_run schedule paths r =
               sleep ((unregister_watches to_delete1 r1)\<lparr>observable_paths := set paths\<rparr>)"
    using assms by (simp add: WatchdogReloader_run_def reg Let_def)
  have keys: "k \<in> set (map fst (watches r)) \<longleftrightarrow> map_of (watches r) k \<noteq> None"
    by (simp add: map_of_eq_None_iff)
  show ?thesis
    unfolding run using R U keys
    by (auto simp: sleep_def split: option.splits)
qed

lemma WatchdogReloader_run_stopped:
  assumes "should_reload r \<or> closed r"
  shows "watches (WatchdogReloader_run schedule paths r) = watches r
     \<and> count_list (trace (WatchdogReloader_run schedule paths r)) (Schedule k) =
         count_list (trace r) (Schedule k)"
  using assms by (auto simp: WatchdogReloader_run_def exit_def)

lemma tick_step_keeps_placeholder:
  assumes "map_of (watches r) d = Some None" and "d \<in> set (tick_paths t)"
  shows "map_of (watches (tick_step abspath t r)) d = Some None
     \<and> count_list (trace (tick_step abspath t r)) (Schedule d) = count_list (trace r) (Schedule d)"
proof -
  define r1 where "r1 = fold (check_modification abspath) (tick_notified t) (r\<lparr>closed := tick_closed t\<rparr>)"
  have r1: "watches r1 = watches r" "count_list (trace r1) (Schedule d) = count_list (trace r) (Schedule d)"
    using notified_fields [of abspath "tick_notified t" "r\<lparr>closed := tick_closed t\<rparr>" d]
    by (simp_all add: r1_def)
  show ?thesis
  proof (cases "should_reload r1 \<or> closed r1")
    case True
    from WatchdogReloader_run_stopped [OF True, of "tick_schedule t" "tick_paths t" d] r1 assms
    show ?thesis by (simp add: tick_step_def r1_def)
  next
    case False
    then have "\<not> should_reload r1" "\<not> closed r1" by simp_all
    from WatchdogReloader_run_result [OF this, of "tick_schedule t" "tick_paths t" d] r1 assms
    show ?thesis by (simp add: tick_step_def r1_def)
  qed
qed

lemma run_ticks_keeps_placeholder:
  assumes "map_of (watches r) d = Some None" and "\<forall>t \<in> set ticks. d \<in> set (tick_paths t)"
  shows "map_of (watches (run_ticks abspath ticks r)) d = Some None
     \<and> count_list (trace (run_ticks abspath ticks r)) (Schedule d) = count_list (trace r) (Schedule d)"
  using assms
proof (induction ticks arbitrary: r)
  case Nil
  then show ?case by (simp add: run_ticks_def)
next
  case (Cons t ticks)
  from Cons.prems have "d \<in> set (tick_paths t)" by simp
  from tick_step_keeps_placeholder [OF Cons.prems(1) this, of abspath]
  have s: "map_of (watches (tick_step abspath t r)) d = Some None"
    "count_list (trace (tick_step abspath t r)) (Schedule d) = count_list (trace r) (Schedule d)"
    by simp_all
  from Cons.IH [OF s(1)] Cons.prems(2) s(2) show ?case
    by (simp add: run_ticks_def)
qed

text \<open>
  Claim C8. When the registration of a desired directory \<open>d\<close> fails on a tick, the
  null placeholder is stored for \<open>d\<close>; every desired directory without an entry,
  before or after \<open>d\<close>, still gets its one registration attempt on that tick and its
  result stored; and through all following ticks in which \<open>d\<close> is desired, whatever
  else happens between them, no registration of \<open>d\<close> is attempted again and the
  placeholder stays.
\<close>

theorem watch_failure_placeholder_not_retried:
  assumes "\<not> should_reload r" and "\<not> closed r"
    and "d \<in> set paths" and "map_of (watches r) d = None" and "schedule d = None"
    and "\<forall>t \<in> set ticks. d \<in> set (tick_paths t)"
  shows "map_of (watches (WatchdogReloader_run schedule paths r)) d = Some None
     \<and> (\<forall>p \<in> set paths. map_of (watches r) p = None \<longrightarrow>
           count_list (trace (WatchdogReloader_run schedule paths r)) (Schedule p) =
             count_list (trace r) (Schedule p) + 1
           \<and> map_of (watches (WatchdogReloader_run schedule paths r)) p = Some (schedule p))
     \<and> count_list (trace (run_ticks abspath ticks (WatchdogReloader_run schedule paths r))) (Schedule d) =
         count_list (trace (WatchdogReloader_run schedule paths r)) (Schedule d)
     \<and> map_of (watches (run_ticks abspath ticks (WatchdogReloader_run schedule paths r))) d = Some None"
proof -
  note run = WatchdogReloader_run_result [OF assms(1,2), of schedule paths]
  have placeholder: "map_of (watches (WatchdogReloader_run schedule paths r)) d = Some None"
    using run [of d] assms(3,4,5) by simp
  have others: "\<forall>p \<in> set paths. map_of (watches r) p = None \<longrightarrow>
           count_list (trace (WatchdogReloader_run schedule paths r)) (Schedule p) =
             count_list (trace r) (Schedule p) + 1
           \<and> map_of (watches (WatchdogReloader_run schedule paths r)) p = Some (schedule p)"
    using run by simp
  from run_ticks_keeps_placeholder [OF placeholder assms(6), of abspath] placeholder others
  show ?thesis by simp
qed

theorem watch_failure_placeholder_not_retried_witness:
  "run_ticks (\<lambda>p. p)
     [\<lparr>tick_closed = False, tick_notified = [],
       tick_schedule = (\<lambda>p. Some (ObservedWatch p)), tick_paths = [''/y'', ''/x'', ''/z'']\<rparr>]
     (WatchdogReloader_run (\<lambda>p. if p = ''/x'' then None else Some (ObservedWatch p))
        [''/x'', ''/y'']
        \<lparr>extra_files = {}, interval = 1, closed = False, trace = [],
          observable_paths = {}, watches = [], should_reload = False\<rparr>)
   = \<lparr>extra_files = {}, interval = 1, closed = False,
      trace = [Schedule ''/x'', Schedule ''/y'', Call_later 1, Schedule ''/z'', Call_later 1],
      observable_paths = {''/x'', ''/y'', ''/z''},
      watches = [(''/x'', None), (''/y'', Some (ObservedWatch ''/y'')),
                 (''/z'', Some (ObservedWatch ''/z''))],
      should_reload = False\<rparr>"
  using watch_failure_placeholder_not_retried
    [where r = "\<lparr>extra_files = {}, interval = 1, closed = False, trace = [],
                  observable_paths = {}, watches = [], should_reload = False\<rparr>"
       and d = "''/x''" and paths = "[''/x'', ''/y'']"
       and schedule = "\<lambda>p. if p = ''/x'' then None else Some (ObservedWatch p)"
       and abspath = "\<lambda>p. p"
       and ticks = "[\<lparr>tick_closed = False, tick_notified = [],
                      tick_schedule = (\<lambda>p. Some (ObservedWatch p)),
                      tick_paths = [''/y'', ''/x'', ''/z'']\<rparr>]"]
  by (simp add: run_ticks_def tick_step_def WatchdogReloader_run_def emit_def sleep_def
        insert_commute)

text \<open>
  Claim C6, as stated, fails while the loop is closed: \<^verbatim>\<open>log_reload\<close> then returns
  \<^verbatim>\<open>None\<close>, so \<^verbatim>\<open>trigger_reload\<close> neither logs nor sets the reload flag, and the
  notification about a compiled file under an observed root requests nothing.
\<close>

theorem check_modification_closed_loop_ignored:
  "suffix ''.pyc'' ''/a/b/c.pyc'' \<and> prefix ''/a'' (dirname ''/a/b/c.pyc'')
   \<and> check_modification (\<lambda>p. p) ''/a/b/c.pyc''
        \<lparr>extra_files = {}, interval = 1, closed = True, trace = [],
          observable_paths = {''/a''}, watches = [(''/a'', Some (ObservedWatch ''/a''))],
          should_reload = False\<rparr>
      = \<lparr>extra_files = {}, interval = 1, closed = True, trace = [],
          observable_paths = {''/a''}, watches = [(''/a'', Some (ObservedWatch ''/a''))],
          should_reload = False\<rparr>"
  by (simp add: dirname_def suffix_def check_modification_def
        WatchdogReloader_trigger_reload_def log_reload_def)

text \<open>
  Claim C6, amended. For a notification about a path ending in \<^verbatim>\<open>.pyc\<close> or \<^verbatim>\<open>.pyo\<close>
  whose directory name starts with an observed root, the path without its last
  character ends in \<^verbatim>\<open>.py\<close>, and while the owning loop is not closed the reloader
  requests a reload naming it: the reload flag is set and the last line logged is
  that source path (after a line for the path itself when it is one of the extra
  files). While the loop is closed the notification changes nothing.
\<close>

theorem check_modification_compiled_artifact_open_loop:
  assumes "suffix ''.pyc'' filename \<or> suffix ''.pyo'' filename"
    and "observed \<in> observable_paths r"
    and "prefix observed (dirname filename)"
  shows "suffix ''.py'' (butlast filename)
     \<and> butlast filename @ [last filename] = filename
     \<and> (\<not> closed r \<longrightarrow>
          should_reload (check_modification abspath filename r)
          \<and> trace (check_modification abspath filename r) =
              trace r @ (if filename \<in> extra_files r then [Log_info (abspath filename)] else [])
                @ [Log_info (abspath (butlast filename))])
     \<and> (closed r \<longrightarrow> check_modification abspath filename r = r)"
proof -
  let ?r1 = "if filename \<in> extra_files r
             then WatchdogReloader_trigger_reload abspath filename r else r"
  have roots: "observable_paths ?r1 = observable_paths r"
    by (simp_all add: WatchdogReloader_trigger_reload_fields)
  from assms(2,3) have under: "\<exists>root \<in> observable_paths ?r1. prefix root (dirname filename)"
    unfolding roots by blast
  have eq: "check_modification abspath filename r =
              WatchdogReloader_trigger_reload abspath (butlast filename) ?r1"
    using under assms(1) unfolding check_modification_def Let_def by (simp only: if_True)
  from assms(1) obtain stem c where name: "filename = stem @ ''.py'' @ [c]"
    by (auto simp: suffix_def)
  then have src: "suffix ''.py'' (butlast filename)" "butlast filename @ [last filename] = filename"
    by (simp_all add: suffix_def butlast_append)
  have opened: "\<not> closed r \<longrightarrow>
          should_reload (WatchdogReloader_trigger_reload abspath (butlast filename) ?r1)
          \<and> trace (WatchdogReloader_trigger_reload abspath (butlast filename) ?r1) =
              trace r @ (if filename \<in> extra_files r then [Log_info (abspath filename)] else [])
                @ [Log_info (abspath (butlast filename))]"
    by (simp add: WatchdogReloader_trigger_reload_def log_reload_def)
  have shut: "closed r \<longrightarrow> WatchdogReloader_trigger_reload abspath (butlast filename) ?r1 = r"
    by (simp add: WatchdogReloader_trigger_reload_def log_reload_def)
  from eq src opened shut show ?thesis by simp
qed

theorem check_modification_compiled_artifact_open_loop_witness:
  "check_modification (\<lambda>p. p) ''/a/b/c.pyc''
     \<lparr>extra_files = {}, interval = 1, closed = False, trace = [],
       observable_paths = {''/a''}, watches = [(''/a'', Some (ObservedWatch ''/a''))],
       should_reload = False\<rparr>
   = \<lparr>extra_files = {}, interval = 1, closed = False, trace = [Log_info ''/a/b/c.py''],
       observable_paths = {''/a''}, watches = [(''/a'', Some (ObservedWatch ''/a''))],
       should_reload = True\<rparr>"
  using check_modification_compiled_artifact_open_loop
    [where filename = "''/a/b/c.pyc''" and observed = "''/a''" and abspath = "\<lambda>p. p"
       and r = "\<lparr>extra_files = {}, interval = 1, closed = False, trace = [],
                  observable_paths = {''/a''}, watches = [(''/a'', Some (ObservedWatch ''/a''))],
                  should_reload = False\<rparr>"]
  by (simp add: dirname_def suffix_def check_modification_def
        WatchdogReloader_trigger_reload_def log_reload_def emit_def)

section \<open>Properties of the common-root reducer\<close>









lemma str_split_not_Nil: "str_split sep s \<noteq> []"
  by (induction s) (auto split: list.splits)

lemma str_join_cons_char: "str_join sep ((c # x) # xs) = c # str_join sep (x # xs)"
  by (cases xs) simp_all

lemma str_join_str_split: "str_join [sep] (str_split sep s) = s"
proof (induction s)
  case Nil
  show ?case by simp
next
  case (Cons c s)
  obtain chunk chunks where sp: "str_split sep s = chunk # chunks"
    using str_split_not_Nil [of sep s] by (cases "str_split sep s") auto
  with Cons show ?case
    by (simp add: str_join_cons_char)
qed

lemma chunks_of_join: "str_join ''/'' (chunks_of p) = p"
  unfolding chunks_of_def os_path_sep_def by (rule str_join_str_split)

lemma chunks_of_inject: "chunks_of a = chunks_of b \<Longrightarrow> a = b"
  by (metis chunks_of_join)


















end
